theory Spec2Isabelle
  imports Main "HOL-Library.AList" "HOL-Library.Multiset"
begin

section \<open>Data model of \<open>aqua_repo_breakdown.py\<close>\<close>

text \<open>
  The records returned by the \<open>aquasec\<close> library are JSON objects, read by the program
  as Python dicts with string keys. The values kept here are the scalars whose Python
  equality is structural equality: \<open>None\<close>, strings and integers. (Booleans and floats,
  for which \<open>True == 1 == 1.0\<close>, and nested arrays and objects are left out: the program
  only formats or compares the two fields \<open>registry\<close> and \<open>name\<close> of a repository and the
  field \<open>name\<close> of a scope.)
\<close>

datatype pyval = PNone | PStr string | PInt int

type_synonym pydict = "string \<rightharpoonup> pyval"

text \<open>\<open>d.get(k, default)\<close>; \<open>d.get(k)\<close> is \<open>dict_get d k PNone\<close>.\<close>

definition dict_get :: "pydict \<Rightarrow> string \<Rightarrow> pyval \<Rightarrow> pyval" where
  "dict_get d k dflt = (case d k of None \<Rightarrow> dflt | Some v \<Rightarrow> v)"

text \<open>Decimal digits of a natural number, as \<open>str\<close> prints them.\<close>

fun str_nat :: "nat \<Rightarrow> string" where
  "str_nat n =
     (if n < 10 then [''0123456789'' ! n]
      else str_nat (n div 10) @ [''0123456789'' ! (n mod 10)])"

declare str_nat.simps [simp del]

definition str_int :: "int \<Rightarrow> string" where
  "str_int i = (if i < 0 then ''-'' @ str_nat (nat (- i)) else str_nat (nat i))"

text \<open>What an f-string \<open>f"{v}"\<close> inserts for a value: \<open>str(v)\<close>.\<close>

fun py_str :: "pyval \<Rightarrow> string" where
  "py_str PNone = ''None''"
| "py_str (PStr s) = s"
| "py_str (PInt i) = str_int i"

text \<open>Truthiness of a value, as tested by \<open>and scope_name\<close>.\<close>

fun truthy :: "pyval \<Rightarrow> bool" where
  "truthy PNone = False"
| "truthy (PStr s) = (s \<noteq> [])"
| "truthy (PInt i) = (i \<noteq> 0)"

text \<open>
  An entry of \<open>repo_map\<close>: the dict \<open>{"data": repo, "scopes": [...]}\<close>. The scopes are
  a Python list, so their order is kept. The map itself is a Python dict, which keeps its keys
  in insertion order: an association list with distinct keys, where \<open>repo_map[key] = v\<close> is
  \<open>AList.update key v\<close> (an existing key keeps its place, a new key goes to the end).
\<close>

record entry =
  data :: pydict
  scopes :: "pyval list"

type_synonym repo_map = "(string \<times> entry) list"

text \<open>An exception raised by a call into the \<open>aquasec\<close> library, with its text.\<close>

datatype error = Exception string

text \<open>
  The two calls into the library, \<open>get_all_repositories\<close> and \<open>get_app_scopes\<close>, are the
  program's input. \<open>all_repos_resp\<close> is the outcome of the call without a scope (step 1),
  \<open>scope_repos_resp s\<close> the outcome of the call with \<open>scope=s\<close> (step 3), and
  \<open>app_scopes_resp\<close> the outcome of \<open>get_app_scopes\<close>; \<open>Inl\<close> is a raised exception.
\<close>

record api =
  all_repos_resp :: "error + pydict list"
  app_scopes_resp :: "error + pydict list"
  scope_repos_resp :: "pyval \<Rightarrow> error + pydict list"

text \<open>
  The lines printed by \<open>build_repository_scope_map\<close>, one constructor for each \<open>print\<close>
  statement, carrying the values the f-string interpolates.
\<close>

datatype line =
    Building_map                      \<comment> \<open>Building repository scope map...\<close>
  | Step1                             \<comment> \<open>Step 1: Fetching all repositories...\<close>
  | Found_total nat                   \<comment> \<open>Found n total repositories\<close>
  | Step2                             \<comment> \<open>Step 2: Fetching application scopes...\<close>
  | Error_repositories error          \<comment> \<open>Error fetching repositories: e\<close>
  | Found_scopes nat                  \<comment> \<open>Found n application scopes\<close>
  | Step3                             \<comment> \<open>Step 3: Checking repositories in each scope...\<close>
  | Error_scopes error                \<comment> \<open>Error fetching scopes: e\<close>
  | Checking_scope nat nat pyval      \<comment> \<open>Checking scope i+1/n: scope_name\<close>
  | Warning_not_in_all string pyval   \<comment> \<open>WARNING: Repository key found in scope s but not in all repos list\<close>
  | Found_in_scope nat pyval          \<comment> \<open>Found n repositories in scope_name\<close>
  | Error_scope pyval error           \<comment> \<open>Error fetching repositories for scope s: e\<close>
  | Mapping_complete                  \<comment> \<open>Scope mapping complete:\<close>
  | Total_repositories nat            \<comment> \<open>Total repositories: n\<close>
  | Orphaned_repositories nat         \<comment> \<open>Orphaned repositories: n\<close>
  | With_app_scopes int               \<comment> \<open>Repositories with app scopes: n\<close>

section \<open>\<open>build_repository_scope_map\<close>\<close>

text \<open>
  The key of a repository record, computed the same way in step 1 and in step 3:
  \<open>registry = repo.get('registry', 'unknown'); name = repo.get('name', 'unknown');
  key = f"{registry}/{name}"\<close>.
\<close>

definition repo_key :: "pydict \<Rightarrow> string" where
  "repo_key repo =
     (let registry = dict_get repo ''registry'' (PStr ''unknown'');
          name = dict_get repo ''name'' (PStr ''unknown'')
      in py_str registry @ ''/'' @ py_str name)"

text \<open>Step 1, the body of \<open>for repo in all_repos\<close>.\<close>

definition add_repo :: "pydict \<Rightarrow> repo_map \<Rightarrow> repo_map" where
  "add_repo repo repo_map =
     AList.update (repo_key repo) \<lparr>data = repo, scopes = [PStr ''Global'']\<rparr> repo_map"

fun add_repos :: "pydict list \<Rightarrow> repo_map \<Rightarrow> repo_map" where
  "add_repos [] repo_map = repo_map"
| "add_repos (repo # rest) repo_map = add_repos rest (add_repo repo repo_map)"

text \<open>
  Step 3, the body of \<open>for repo in scope_repos\<close>. The state is the map and the lines
  printed so far.
\<close>

definition add_scope ::
  "bool \<Rightarrow> pyval \<Rightarrow> pydict \<Rightarrow> repo_map \<times> line list \<Rightarrow> repo_map \<times> line list" where
  "add_scope debug scope_name repo st =
     (let repo_map = fst st; out = snd st; key = repo_key repo
      in case map_of repo_map key of
           Some e \<Rightarrow>
             if scope_name \<notin> set (scopes e)
             then (AList.update key (e\<lparr>scopes := scopes e @ [scope_name]\<rparr>) repo_map, out)
             else (repo_map, out)
         | None \<Rightarrow>
             (repo_map, out @ (if debug then [Warning_not_in_all key scope_name] else [])))"

fun add_scopes ::
  "bool \<Rightarrow> pyval \<Rightarrow> pydict list \<Rightarrow> repo_map \<times> line list \<Rightarrow> repo_map \<times> line list" where
  "add_scopes debug scope_name [] st = st"
| "add_scopes debug scope_name (repo # rest) st =
     add_scopes debug scope_name rest (add_scope debug scope_name repo st)"

text \<open>
  Step 3, the body of \<open>for i, scope in enumerate(app_scopes)\<close>, with \<open>n = len(app_scopes)\<close>.
  An exception of the lookup is caught: it prints a line when \<open>verbose\<close> is set and the loop
  goes on with the next scope. (The records are dicts, so the lookup is the only statement
  of the \<open>try\<close> block that can raise.)
\<close>

definition check_scope ::
  "api \<Rightarrow> bool \<Rightarrow> bool \<Rightarrow> nat \<Rightarrow> nat \<Rightarrow> pydict \<Rightarrow> repo_map \<times> line list \<Rightarrow> repo_map \<times> line list" where
  "check_scope a verbose debug n i scope st =
     (let scope_name = dict_get scope ''name'' PNone;
          st1 = (fst st, snd st @ (if verbose then [Checking_scope (i + 1) n scope_name] else []))
      in case scope_repos_resp a scope_name of
           Inr scope_repos \<Rightarrow>
             (let st2 = add_scopes debug scope_name scope_repos st1
              in (fst st2,
                  snd st2 @ (if debug then [Found_in_scope (length scope_repos) scope_name] else [])))
         | Inl e \<Rightarrow>
             (fst st1, snd st1 @ (if verbose then [Error_scope scope_name e] else [])))"

fun check_scopes ::
  "api \<Rightarrow> bool \<Rightarrow> bool \<Rightarrow> nat \<Rightarrow> nat \<Rightarrow> pydict list \<Rightarrow> repo_map \<times> line list \<Rightarrow> repo_map \<times> line list" where
  "check_scopes a verbose debug n i [] st = st"
| "check_scopes a verbose debug n i (scope # rest) st =
     check_scopes a verbose debug n (i + 1) rest (check_scope a verbose debug n i scope st)"

text \<open>\<open>[s for s in all_scopes if s.get("name") != "Global"]\<close>\<close>

definition app_scopes_of :: "pydict list \<Rightarrow> pydict list" where
  "app_scopes_of all_scopes = filter (\<lambda>s. dict_get s ''name'' PNone \<noteq> PStr ''Global'') all_scopes"

text \<open>\<open>sum(1 for v in repo_map.values() if v["scopes"] == ["Global"])\<close>\<close>

definition count_orphaned :: "repo_map \<Rightarrow> nat" where
  "count_orphaned repo_map = length (filter (\<lambda>kv. scopes (snd kv) = [PStr ''Global'']) repo_map)"

text \<open>
  The whole function. It returns the lines printed and either the exception that
  leaves the function (\<open>raise\<close> in the handlers of steps 1 and 2) or the returned map.
\<close>

definition build_repository_scope_map :: "api \<Rightarrow> bool \<Rightarrow> bool \<Rightarrow> line list \<times> (error + repo_map)" where
  "build_repository_scope_map a verbose debug =
     (let out0 = (if verbose then [Building_map, Step1] else [])
      in case all_repos_resp a of
           Inl e \<Rightarrow> (out0 @ (if verbose then [Error_repositories e] else []), Inl e)
         | Inr all_repos \<Rightarrow>
             (let repo_map = add_repos all_repos [];
                  out1 = out0 @ (if verbose then [Found_total (length all_repos), Step2] else [])
              in case app_scopes_resp a of
                   Inl e \<Rightarrow> (out1 @ (if verbose then [Error_scopes e] else []), Inl e)
                 | Inr all_scopes \<Rightarrow>
                     (let app_scopes = app_scopes_of all_scopes;
                          out2 = out1 @ (if verbose then [Found_scopes (length app_scopes), Step3] else []);
                          st = check_scopes a verbose debug (length app_scopes) 0 app_scopes (repo_map, out2);
                          orphaned = count_orphaned (fst st);
                          out3 = snd st @
                            (if verbose
                             then [Mapping_complete, Total_repositories (length (fst st)),
                                   Orphaned_repositories orphaned,
                                   With_app_scopes (int (length (fst st)) - int orphaned)]
                             else [])
                      in (out3, Inr (fst st)))))"

section \<open>\<open>filter_repositories\<close>\<close>

text \<open>
  The dict comprehensions keep the items of \<open>repo_map\<close> that pass the test, in their order.
  The last branch returns \<open>repo_map\<close> itself. Nothing is assigned to \<open>repo_map\<close> or to one of
  its entries.
\<close>

definition filter_repositories :: "repo_map \<Rightarrow> string \<Rightarrow> pyval \<Rightarrow> repo_map" where
  "filter_repositories repo_map filter_type scope_name =
     (if filter_type = ''orphaned''
      then filter (\<lambda>kv. scopes (snd kv) = [PStr ''Global'']) repo_map
      else if filter_type = ''scope'' \<and> truthy scope_name
      then filter (\<lambda>kv. scope_name \<in> set (scopes (snd kv))) repo_map
      else repo_map)"

section \<open>The effect of step 3 on the map\<close>

text \<open>
  Auxiliary functions for the proofs. \<open>annotate sn K\<close> appends the scope name \<open>sn\<close> to
  every entry whose key is in \<open>K\<close> and that does not carry it yet; \<open>scope_step\<close> is what
  one iteration of the loop over \<open>app_scopes\<close> does to the map (lemma \<open>check_scope_map\<close>).
\<close>

abbreviation name_of :: "pydict \<Rightarrow> pyval" where
  "name_of scope \<equiv> dict_get scope ''name'' PNone"

definition annotate :: "pyval \<Rightarrow> string set \<Rightarrow> repo_map \<Rightarrow> repo_map" where
  "annotate sn K m =
     map (\<lambda>kv. if fst kv \<in> K \<and> sn \<notin> set (scopes (snd kv))
                then (fst kv, (snd kv)\<lparr>scopes := scopes (snd kv) @ [sn]\<rparr>) else kv) m"

definition scope_step :: "api \<Rightarrow> repo_map \<Rightarrow> pydict \<Rightarrow> repo_map" where
  "scope_step a m scope =
     (case scope_repos_resp a (name_of scope) of
        Inl e \<Rightarrow> m
      | Inr scope_repos \<Rightarrow> annotate (name_of scope) (repo_key ` set scope_repos) m)"

text \<open>
  The shape of every scopes list that \<open>build_repository_scope_map\<close> builds: it starts
  with \<open>"Global"\<close> and has no repeated name.
\<close>

definition scopes_ok :: "pyval list \<Rightarrow> bool" where
  "scopes_ok xs = (xs \<noteq> [] \<and> hd xs = PStr ''Global'' \<and> distinct xs)"

section \<open>Example inputs\<close>

text \<open>
  The scenarios of the specification: two repositories of \<open>docker.io\<close>, the scopes
  \<open>Global\<close> and \<open>team-a\<close>, and a library whose lookup for \<open>team-a\<close> returns \<open>app1\<close>
  (scenario A) or raises (scenario B).
\<close>

definition app1 :: pydict where
  "app1 = [''registry'' \<mapsto> PStr ''docker.io'', ''name'' \<mapsto> PStr ''app1'']"

definition app2 :: pydict where
  "app2 = [''registry'' \<mapsto> PStr ''docker.io'', ''name'' \<mapsto> PStr ''app2'']"

definition scope_global :: pydict where
  "scope_global = [''name'' \<mapsto> PStr ''Global'']"

definition scope_team_a :: pydict where
  "scope_team_a = [''name'' \<mapsto> PStr ''team-a'']"

definition scenario_A :: api where
  "scenario_A =
     \<lparr>all_repos_resp = Inr [app1, app2],
      app_scopes_resp = Inr [scope_global, scope_team_a],
      scope_repos_resp = (\<lambda>s. if s = PStr ''team-a'' then Inr [app1] else Inr [])\<rparr>"

definition scenario_B :: api where
  "scenario_B =
     \<lparr>all_repos_resp = Inr [app1, app2],
      app_scopes_resp = Inr [scope_global, scope_team_a],
      scope_repos_resp = (\<lambda>s. Inl (Exception ''lookup failed''))\<rparr>"

text \<open>The map that scenario A yields.\<close>

definition scenario_A_map :: repo_map where
  "scenario_A_map =
     [(''docker.io/app1'', \<lparr>data = app1, scopes = [PStr ''Global'', PStr ''team-a'']\<rparr>),
      (''docker.io/app2'', \<lparr>data = app2, scopes = [PStr ''Global'']\<rparr>)]"

text \<open>An inventory that lists \<open>app1\<close> twice; every lookup succeeds and returns \<open>app1\<close>.\<close>

definition inventory_twice :: api where
  "inventory_twice =
     \<lparr>all_repos_resp = Inr [app1, app1],
      app_scopes_resp = Inr [scope_global, scope_team_a],
      scope_repos_resp = (\<lambda>s. Inr [app1])\<rparr>"

text \<open>Two records with different registry and name whose keys are both \<open>a/b/c\<close>.\<close>

definition repo_a_bc :: pydict where
  "repo_a_bc = [''registry'' \<mapsto> PStr ''a'', ''name'' \<mapsto> PStr ''b/c'']"

definition repo_ab_c :: pydict where
  "repo_ab_c = [''registry'' \<mapsto> PStr ''a/b'', ''name'' \<mapsto> PStr ''c'']"

definition colliding_inventory :: api where
  "colliding_inventory =
     \<lparr>all_repos_resp = Inr [repo_a_bc, repo_ab_c],
      app_scopes_resp = Inr [scope_global],
      scope_repos_resp = (\<lambda>s. Inr [])\<rparr>"

text \<open>A library whose inventory call raises, and one whose scope listing raises.\<close>

definition inventory_down :: api where
  "inventory_down =
     \<lparr>all_repos_resp = Inl (Exception ''no inventory''),
      app_scopes_resp = Inr [scope_global, scope_team_a],
      scope_repos_resp = (\<lambda>s. Inr [app1])\<rparr>"

definition scopes_down :: api where
  "scopes_down =
     \<lparr>all_repos_resp = Inr [app1, app2],
      app_scopes_resp = Inl (Exception ''no scopes''),
      scope_repos_resp = (\<lambda>s. Inr [app1])\<rparr>"

text \<open>
  Scenario D: the lookup for \<open>team-b\<close> returns \<open>app1\<close> and a repository \<open>x/ghost\<close> that the
  inventory does not have.
\<close>

definition ghost :: pydict where
  "ghost = [''registry'' \<mapsto> PStr ''x'', ''name'' \<mapsto> PStr ''ghost'']"

definition scope_team_b :: pydict where
  "scope_team_b = [''name'' \<mapsto> PStr ''team-b'']"

definition scenario_D :: api where
  "scenario_D =
     \<lparr>all_repos_resp = Inr [app1, app2],
      app_scopes_resp = Inr [scope_global, scope_team_b],
      scope_repos_resp = (\<lambda>s. if s = PStr ''team-b'' then Inr [ghost, app1] else Inr [])\<rparr>"

text \<open>
  The lookups of a library with the records that the inventory does not have removed
  from every answer.
\<close>

definition known_only :: "pydict list \<Rightarrow> (pyval \<Rightarrow> error + pydict list) \<Rightarrow> pyval \<Rightarrow> error + pydict list" where
  "known_only all_repos resp s =
     (case resp s of
        Inl e \<Rightarrow> Inl e
      | Inr scope_repos \<Rightarrow>
          Inr (filter (\<lambda>repo. repo_key repo \<in> repo_key ` set all_repos) scope_repos))"

text \<open>
  Two scopes that both hold \<open>app1\<close>, listed in the order \<open>team-a\<close>, \<open>team-b\<close> and in the
  order \<open>team-b\<close>, \<open>team-a\<close>.
\<close>

definition two_scopes_ab :: api where
  "two_scopes_ab =
     \<lparr>all_repos_resp = Inr [app1],
      app_scopes_resp = Inr [scope_team_a, scope_team_b],
      scope_repos_resp = (\<lambda>s. Inr [app1])\<rparr>"

definition two_scopes_ba :: api where
  "two_scopes_ba = two_scopes_ab\<lparr>app_scopes_resp := Inr [scope_team_b, scope_team_a]\<rparr>"

text \<open>
  \<open>lists_repo a k s\<close>: the lookup for the scope \<open>s\<close> succeeds and returns a record with the
  key \<open>k\<close>. \<open>listing_scopes a ss k\<close>: the names of the scopes of \<open>ss\<close> for which it does.
\<close>

definition lists_repo :: "api \<Rightarrow> string \<Rightarrow> pydict \<Rightarrow> bool" where
  "lists_repo a k s =
     (case scope_repos_resp a (name_of s) of
        Inl e \<Rightarrow> False
      | Inr scope_repos \<Rightarrow> k \<in> repo_key ` set scope_repos)"

definition listing_scopes :: "api \<Rightarrow> pydict list \<Rightarrow> string \<Rightarrow> pyval set" where
  "listing_scopes a ss k = name_of ` {s \<in> set ss. lists_repo a k s}"

text \<open>What does not depend on the order of the scopes: key, record and set of scopes.\<close>

definition view :: "string \<times> entry \<Rightarrow> string \<times> pydict \<times> pyval set" where
  "view kv = (fst kv, data (snd kv), set (scopes (snd kv)))"

text \<open>
  The identity of a repository in the specification: its registry and its name, as the
  record gives them (\<open>None\<close> for a field that the record does not have).
\<close>

definition repo_identity :: "pydict \<Rightarrow> pyval option \<times> pyval option" where
  "repo_identity repo = (repo ''registry'', repo ''name'')"

section \<open>The counts of \<open>repo_breakdown\<close>\<close>

text \<open>
  The entry \<open>"summary"\<close> of the breakdown. The three counts are Python integers. The
  percentage is the integer \<open>0\<close> when there is no repository, and otherwise the float
  \<open>round(orphaned_repos / total_repos * 100, 2)\<close>; floating-point arithmetic is not
  modelled, so the second constructor only keeps the two operands.
\<close>

datatype percentage = Int_zero | Rounded_float nat nat

record summary =
  total_repositories :: nat
  orphaned_repositories :: nat
  repositories_with_app_scopes :: int
  orphaned_percentage :: percentage

definition summary_of :: "repo_map \<Rightarrow> summary" where
  "summary_of filtered_map =
     (let total_repos = length filtered_map;
          orphaned_repos = length (filter (\<lambda>v. scopes v = [PStr ''Global'']) (map snd filtered_map));
          scoped_repos = int total_repos - int orphaned_repos
      in \<lparr>total_repositories = total_repos,
          orphaned_repositories = orphaned_repos,
          repositories_with_app_scopes = scoped_repos,
          orphaned_percentage =
            (if total_repos > 0 then Rounded_float orphaned_repos total_repos else Int_zero)\<rparr>)"

section \<open>Step 3 as a map over the entries\<close>

lemma update_present:
  "distinct (map fst m) \<Longrightarrow> map_of m k = Some e \<Longrightarrow>
   AList.update k v m = map (\<lambda>kv. if fst kv = k then (k, v) else kv) m"
proof (induction m)
  case Nil
  then show ?case by simp
next
  case (Cons p m)
  show ?case
  proof (cases "fst p = k")
    case True
    with Cons.prems have "k \<notin> fst ` set m" by auto
    then have "map (\<lambda>kv. if fst kv = k then (k, v) else kv) m = m"
      by (intro map_idI) auto
    with True show ?thesis by simp
  next
    case False
    with Cons show ?thesis by simp
  qed
qed

lemma set_update_subset: "set (AList.update k v m) \<subseteq> insert (k, v) (set m)"
  by (induction m) auto

lemma keys_annotate [simp]: "map fst (annotate sn K m) = map fst m"
  by (simp add: annotate_def)

lemma annotate_empty [simp]: "annotate sn {} m = m"
  by (simp add: annotate_def)

lemma annotate_annotate: "annotate sn K (annotate sn K' m) = annotate sn (K' \<union> K) m"
  by (auto simp: annotate_def)

lemma add_scope_map:
  assumes "distinct (map fst (fst st))"
  shows "fst (add_scope debug sn repo st) = annotate sn {repo_key repo} (fst st)"
proof (cases "map_of (fst st) (repo_key repo)")
  case None
  then have "repo_key repo \<notin> fst ` set (fst st)"
    by (simp add: map_of_eq_None_iff)
  then have "annotate sn {repo_key repo} (fst st) = fst st"
    unfolding annotate_def by (intro map_idI) force
  with None show ?thesis by (simp add: add_scope_def)
next
  case (Some e)
  show ?thesis
  proof (cases "sn \<in> set (scopes e)")
    case True
    have "\<And>kv. kv \<in> set (fst st) \<Longrightarrow> fst kv = repo_key repo \<Longrightarrow> snd kv = e"
      using Some assms by (metis map_of_is_SomeI option.inject prod.collapse)
    then have "annotate sn {repo_key repo} (fst st) = fst st"
      unfolding annotate_def using True by (intro map_idI) auto
    with Some True show ?thesis by (simp add: add_scope_def)
  next
    case False
    have eq: "\<And>kv. kv \<in> set (fst st) \<Longrightarrow> fst kv = repo_key repo \<Longrightarrow> snd kv = e"
      using Some assms by (metis map_of_is_SomeI option.inject prod.collapse)
    have "AList.update (repo_key repo) (e\<lparr>scopes := scopes e @ [sn]\<rparr>) (fst st)
          = map (\<lambda>kv. if fst kv = repo_key repo then (repo_key repo, e\<lparr>scopes := scopes e @ [sn]\<rparr>) else kv) (fst st)"
      using assms Some by (rule update_present)
    also have "\<dots> = annotate sn {repo_key repo} (fst st)"
      unfolding annotate_def using eq False by (intro map_cong) auto
    finally show ?thesis using Some False by (simp add: add_scope_def)
  qed
qed

lemma add_scopes_map:
  "distinct (map fst (fst st)) \<Longrightarrow>
   fst (add_scopes debug sn repos st) = annotate sn (repo_key ` set repos) (fst st)"
proof (induction repos arbitrary: st)
  case Nil
  then show ?case by simp
next
  case (Cons r repos)
  have d: "distinct (map fst (fst (add_scope debug sn r st)))"
    using Cons.prems by (simp add: add_scope_map)
  show ?case
    using Cons.IH [OF d] Cons.prems
    by (simp add: add_scope_map annotate_annotate)
qed

lemma check_scope_map:
  "distinct (map fst (fst st)) \<Longrightarrow>
   fst (check_scope a verbose debug n i scope st) = scope_step a (fst st) scope"
  by (simp add: check_scope_def scope_step_def add_scopes_map Let_def split: sum.splits)

lemma keys_scope_step [simp]: "map fst (scope_step a m scope) = map fst m"
  by (simp add: scope_step_def split: sum.splits)

lemma keys_scope_steps [simp]: "map fst (foldl (scope_step a) m ss) = map fst m"
  by (induction ss arbitrary: m) auto

lemma check_scopes_map:
  "distinct (map fst (fst st)) \<Longrightarrow>
   fst (check_scopes a verbose debug n i ss st) = foldl (scope_step a) (fst st) ss"
proof (induction ss arbitrary: st i)
  case Nil
  then show ?case by simp
next
  case (Cons s ss)
  have d: "distinct (map fst (fst (check_scope a verbose debug n i s st)))"
    using Cons.prems by (simp add: check_scope_map)
  show ?case
    using Cons.IH [OF d] Cons.prems by (simp add: check_scope_map)
qed

section \<open>Step 1, and the result of the whole function\<close>

lemma keys_add_repo: "fst ` set (add_repo r m) = insert (repo_key r) (fst ` set m)"
  by (simp add: add_repo_def dom_update)

lemma keys_add_repos: "fst ` set (add_repos rs m) = fst ` set m \<union> repo_key ` set rs"
  by (induction rs arbitrary: m) (auto simp: keys_add_repo)

lemma distinct_add_repos: "distinct (map fst m) \<Longrightarrow> distinct (map fst (add_repos rs m))"
  by (induction rs arbitrary: m) (auto simp: add_repo_def distinct_update)

lemma scopes_add_repos:
  "\<forall>kv\<in>set m. scopes (snd kv) = [PStr ''Global''] \<Longrightarrow>
   \<forall>kv\<in>set (add_repos rs m). scopes (snd kv) = [PStr ''Global'']"
proof (induction rs arbitrary: m)
  case Nil
  then show ?case by simp
next
  case (Cons r rs)
  have "set (add_repo r m) \<subseteq> insert (repo_key r, \<lparr>data = r, scopes = [PStr ''Global'']\<rparr>) (set m)"
    unfolding add_repo_def by (rule set_update_subset)
  then have "\<forall>kv\<in>set (add_repo r m). scopes (snd kv) = [PStr ''Global'']"
    using Cons.prems by fastforce
  then show ?case using Cons.IH by simp
qed

lemma length_add_repos: "length (add_repos rs []) = card (repo_key ` set rs)"
proof -
  have "distinct (map fst (add_repos rs []))"
    by (rule distinct_add_repos) simp
  then have "card (set (map fst (add_repos rs []))) = length (map fst (add_repos rs []))"
    by (rule distinct_card)
  then show ?thesis by (simp add: keys_add_repos)
qed

lemma build_result:
  assumes "all_repos_resp a = Inr all_repos" and "app_scopes_resp a = Inr all_scopes"
  shows "snd (build_repository_scope_map a verbose debug) =
         Inr (foldl (scope_step a) (add_repos all_repos []) (app_scopes_of all_scopes))"
  using assms distinct_add_repos [of "[]" all_repos]
  by (simp add: build_repository_scope_map_def Let_def check_scopes_map)

lemma build_fatal_repos:
  "all_repos_resp a = Inl e \<Longrightarrow> snd (build_repository_scope_map a verbose debug) = Inl e"
  by (simp add: build_repository_scope_map_def)

lemma build_fatal_scopes:
  "all_repos_resp a = Inr all_repos \<Longrightarrow> app_scopes_resp a = Inl e \<Longrightarrow>
   snd (build_repository_scope_map a verbose debug) = Inl e"
  by (simp add: build_repository_scope_map_def Let_def)


lemma scopes_ok_annotate:
  "\<forall>kv\<in>set m. scopes_ok (scopes (snd kv)) \<Longrightarrow> \<forall>kv\<in>set (annotate sn K m). scopes_ok (scopes (snd kv))"
  by (auto simp: annotate_def scopes_ok_def)

lemma scopes_ok_scope_step:
  "\<forall>kv\<in>set m. scopes_ok (scopes (snd kv)) \<Longrightarrow> \<forall>kv\<in>set (scope_step a m s). scopes_ok (scopes (snd kv))"
  unfolding scope_step_def using scopes_ok_annotate by (auto split: sum.splits)

lemma scopes_ok_scope_steps:
  "\<forall>kv\<in>set m. scopes_ok (scopes (snd kv)) \<Longrightarrow>
   \<forall>kv\<in>set (foldl (scope_step a) m ss). scopes_ok (scopes (snd kv))"
proof (induction ss arbitrary: m)
  case Nil
  then show ?case by simp
next
  case (Cons s ss)
  show ?case using Cons.IH [OF scopes_ok_scope_step [OF Cons.prems]] by simp
qed

lemma scopes_ok_add_repos: "\<forall>kv\<in>set (add_repos rs []). scopes_ok (scopes (snd kv))"
  using scopes_add_repos [of "[]" rs] by (simp add: scopes_ok_def)

lemma scopes_ok_build:
  assumes "snd (build_repository_scope_map a verbose debug) = Inr m"
  shows "\<forall>kv\<in>set m. scopes_ok (scopes (snd kv))"
proof -
  obtain rs where rs: "all_repos_resp a = Inr rs"
    using assms by (cases "all_repos_resp a") (auto simp: build_fatal_repos)
  obtain ss where ss: "app_scopes_resp a = Inr ss"
    using assms rs by (cases "app_scopes_resp a") (auto simp: build_fatal_scopes)
  have "m = foldl (scope_step a) (add_repos rs []) (app_scopes_of ss)"
    using assms build_result [OF rs ss] by simp
  then show ?thesis using scopes_ok_scope_steps [OF scopes_ok_add_repos] by simp
qed

section \<open>The inventory is kept\<close>

lemma keys_build:
  assumes "all_repos_resp a = Inr all_repos" and "app_scopes_resp a = Inr all_scopes"
    and "snd (build_repository_scope_map a verbose debug) = Inr m"
  shows "map fst m = map fst (add_repos all_repos [])"
  using assms build_result [OF assms(1,2), of verbose debug] by auto

lemma dom_scope_steps: "fst ` set (foldl (scope_step a) m ss) = fst ` set m"
  by (simp only: set_map [symmetric] keys_scope_steps)

lemma global_in_scopes_ok: "scopes_ok xs \<Longrightarrow> PStr ''Global'' \<in> set xs"
  by (cases xs) (auto simp: scopes_ok_def)

lemma map_of_add_repos:
  "map_of (add_repos rs m) k = Some e \<Longrightarrow>
   map_of m k = Some e \<or> (data e \<in> set rs \<and> repo_key (data e) = k)"
proof (induction rs arbitrary: m)
  case Nil
  then show ?case by simp
next
  case (Cons r rs)
  from Cons.IH [of "add_repo r m"] Cons.prems
  have "map_of (add_repo r m) k = Some e \<or> (data e \<in> set rs \<and> repo_key (data e) = k)"
    by simp
  then show ?case
    by (auto simp: add_repo_def update_conv' split: if_splits)
qed

lemma map_of_annotate:
  "map_option data (map_of (annotate sn K m) k) = map_option data (map_of m k)"
  by (induction m) (auto simp: annotate_def)

lemma data_scope_step:
  "map_option data (map_of (scope_step a m s) k) = map_option data (map_of m k)"
  by (simp add: scope_step_def map_of_annotate split: sum.splits)

lemma data_scope_steps:
  "map_option data (map_of (foldl (scope_step a) m ss) k) = map_option data (map_of m k)"
  by (induction ss arbitrary: m) (simp_all add: data_scope_step)

text \<open>
  What the code keeps of the inventory. The key of every record of \<open>all_repos\<close> is a key of
  the returned map, the keys are distinct and every entry carries \<open>"Global"\<close>; the entry under
  the key of a record holds a record of the inventory with that key, which is a record of
  the same repository if no two different repositories of the inventory have the same key.
\<close>

lemma inventory_keys_kept:
  assumes "all_repos_resp a = Inr all_repos" and "app_scopes_resp a = Inr all_scopes"
  shows "\<exists>m. snd (build_repository_scope_map a verbose debug) = Inr m
           \<and> distinct (map fst m)
           \<and> (\<forall>kv\<in>set m. PStr ''Global'' \<in> set (scopes (snd kv)))
           \<and> (\<forall>repo\<in>set all_repos. \<exists>e. map_of m (repo_key repo) = Some e
                  \<and> data e \<in> set all_repos \<and> repo_key (data e) = repo_key repo)"
proof -
  let ?seed = "add_repos all_repos []"
  let ?m = "foldl (scope_step a) ?seed (app_scopes_of all_scopes)"
  have res: "snd (build_repository_scope_map a verbose debug) = Inr ?m"
    using assms by (rule build_result)
  have dist: "distinct (map fst ?m)"
    by (simp del: add_repos.simps) (rule distinct_add_repos, simp)
  have glob: "\<forall>kv\<in>set ?m. PStr ''Global'' \<in> set (scopes (snd kv))"
    using scopes_ok_build [OF res] global_in_scopes_ok by blast
  have held: "\<exists>e. map_of ?m (repo_key repo) = Some e
                  \<and> data e \<in> set all_repos \<and> repo_key (data e) = repo_key repo"
    if "repo \<in> set all_repos" for repo
  proof -
    have "fst ` set ?m = repo_key ` set all_repos"
      by (simp add: dom_scope_steps keys_add_repos)
    then have "repo_key repo \<in> fst ` set ?m"
      using that by blast
    then obtain e where e: "map_of ?m (repo_key repo) = Some e"
      by (metis map_of_eq_None_iff not_Some_eq)
    then obtain e0 where e0: "map_of ?seed (repo_key repo) = Some e0" and d: "data e = data e0"
      using data_scope_steps [of a ?seed "app_scopes_of all_scopes" "repo_key repo"]
      by (cases "map_of ?seed (repo_key repo)") auto
    from map_of_add_repos [OF e0]
    have "data e0 \<in> set all_repos \<and> repo_key (data e0) = repo_key repo"
      by simp
    with e d show ?thesis by simp
  qed
  from res dist glob held show ?thesis by blast
qed

text \<open>
  C1 fails on the code. The comment of step 1 says \<open>Create unique key from registry and
  name\<close>, but the key \<open>f"{registry}/{name}"\<close> is not unique: the repository with registry
  \<open>a\<close> and name \<open>b/c\<close> and the repository with registry \<open>a/b\<close> and name \<open>c\<close> both get the key
  \<open>a/b/c\<close>. For an inventory with these two repositories the returned map has the single
  entry of the second one: the first repository of the inventory is in no entry.
\<close>

theorem collision_drops_repository:
  "all_repos_resp colliding_inventory = Inr [repo_a_bc, repo_ab_c]
   \<and> repo_identity repo_a_bc = (Some (PStr ''a''), Some (PStr ''b/c''))
   \<and> repo_identity repo_ab_c = (Some (PStr ''a/b''), Some (PStr ''c''))
   \<and> snd (build_repository_scope_map colliding_inventory False False)
       = Inr [(''a/b/c'', \<lparr>data = repo_ab_c, scopes = [PStr ''Global'']\<rparr>)]
   \<and> repo_a_bc \<noteq> repo_ab_c
   \<and> repo_identity repo_a_bc \<noteq> repo_identity repo_ab_c"
proof -
  have "repo_a_bc ''name'' \<noteq> repo_ab_c ''name''"
    by (simp add: repo_a_bc_def repo_ab_c_def)
  then have ne: "repo_a_bc \<noteq> repo_ab_c"
    by auto
  have keys: "repo_key repo_a_bc = ''a/b/c''" "repo_key repo_ab_c = ''a/b/c''"
    by (simp_all add: repo_key_def dict_get_def repo_a_bc_def repo_ab_c_def)
  have res: "snd (build_repository_scope_map colliding_inventory False False)
       = Inr [(''a/b/c'', \<lparr>data = repo_ab_c, scopes = [PStr ''Global'']\<rparr>)]"
    using build_result [of colliding_inventory "[repo_a_bc, repo_ab_c]" "[scope_global]" False False]
    by (simp add: colliding_inventory_def app_scopes_of_def scope_global_def dict_get_def
        add_repo_def keys)
  have ids: "repo_identity repo_a_bc = (Some (PStr ''a''), Some (PStr ''b/c''))"
    "repo_identity repo_ab_c = (Some (PStr ''a/b''), Some (PStr ''c''))"
    by (simp_all add: repo_identity_def repo_a_bc_def repo_ab_c_def)
  have inv: "all_repos_resp colliding_inventory = Inr [repo_a_bc, repo_ab_c]"
    by (simp add: colliding_inventory_def)
  have "repo_identity repo_a_bc \<noteq> repo_identity repo_ab_c"
    by (simp add: ids)
  with inv ids res ne show ?thesis by blast
qed

section \<open>The number of entries\<close>

lemmas eval_build =
  build_repository_scope_map_def app_scopes_of_def check_scope_def add_scope_def add_repo_def
  repo_key_def dict_get_def count_orphaned_def

lemma build_scenario_A:
  "snd (build_repository_scope_map scenario_A verbose debug) = Inr scenario_A_map"
  by (simp add: eval_build Let_def scenario_A_def scenario_A_map_def app1_def app2_def
      scope_global_def scope_team_a_def)

lemma repo_key_identity: "repo_identity r = repo_identity r' \<Longrightarrow> repo_key r = repo_key r'"
  by (simp add: repo_identity_def repo_key_def dict_get_def)

lemma card_keys_identities:
  assumes "\<forall>r\<in>set all_repos. \<forall>r'\<in>set all_repos.
             repo_key r = repo_key r' \<longrightarrow> repo_identity r = repo_identity r'"
  shows "card (repo_key ` set all_repos) = card (repo_identity ` set all_repos)"
proof -
  let ?g = "\<lambda>i. py_str (case fst i of None \<Rightarrow> PStr ''unknown'' | Some v \<Rightarrow> v) @ ''/''
                @ py_str (case snd i of None \<Rightarrow> PStr ''unknown'' | Some v \<Rightarrow> v)"
  have g: "?g (repo_identity r) = repo_key r" for r
    by (simp add: repo_identity_def repo_key_def dict_get_def)
  have img: "repo_key ` set all_repos = ?g ` (repo_identity ` set all_repos)"
    by (simp only: image_image g)
  have inj: "inj_on ?g (repo_identity ` set all_repos)"
  proof (rule inj_onI)
    fix i j
    assume "i \<in> repo_identity ` set all_repos" and "j \<in> repo_identity ` set all_repos"
      and eq: "?g i = ?g j"
    then obtain r r' where r: "r \<in> set all_repos" "i = repo_identity r"
      and r': "r' \<in> set all_repos" "j = repo_identity r'"
      by blast
    from eq r(2) r'(2) have "repo_key r = repo_key r'"
      by (simp only: g)
    with assms r r' show "i = j" by blast
  qed
  show ?thesis
    unfolding img using inj by (rule card_image)
qed

lemma length_eq_distinct_identities:
  "card (repo_identity ` set all_repos) = length all_repos
     \<longleftrightarrow> distinct (map repo_identity all_repos)"
proof
  assume "card (repo_identity ` set all_repos) = length all_repos"
  then have "card (set (map repo_identity all_repos)) = length (map repo_identity all_repos)"
    by simp
  then show "distinct (map repo_identity all_repos)"
    by (rule card_distinct)
next
  assume "distinct (map repo_identity all_repos)"
  then have "card (set (map repo_identity all_repos)) = length (map repo_identity all_repos)"
    by (rule distinct_card)
  then show "card (repo_identity ` set all_repos) = length all_repos"
    by simp
qed

text \<open>
  C3, as stated, fails: an inventory that lists the same repository twice has two
  elements, and the map has one entry, although every lookup succeeds and returns only
  repositories of the inventory.
\<close>

theorem entries_count_counterexample:
  "all_repos_resp inventory_twice = Inr [app1, app1]
   \<and> snd (build_repository_scope_map inventory_twice False False)
       = Inr [(''docker.io/app1'', \<lparr>data = app1, scopes = [PStr ''Global'', PStr ''team-a'']\<rparr>)]
   \<and> length [(''docker.io/app1'', \<lparr>data = app1, scopes = [PStr ''Global'', PStr ''team-a'']\<rparr>)]
       \<noteq> length [app1, app1]"
  by (simp add: eval_build inventory_twice_def app1_def scope_global_def scope_team_a_def)

text \<open>
  C3, amended. Take an inventory in which no two different repositories (records that
  differ in registry or name) have the same key. When the two foundational calls succeed,
  the number of entries of the returned map is the number of different repositories among
  the records of \<open>all_repos\<close>: a repository that is listed several times counts once. It
  is the number of elements of \<open>all_repos\<close> exactly when no repository is listed twice.
  (This holds whatever the per-scope lookups return. Inventories in which two different
  repositories have the same key are left out.)
\<close>

theorem entries_count:
  assumes "all_repos_resp a = Inr all_repos" and "app_scopes_resp a = Inr all_scopes"
    and "\<forall>r\<in>set all_repos. \<forall>r'\<in>set all_repos.
           repo_key r = repo_key r' \<longrightarrow> repo_identity r = repo_identity r'"
  shows "\<exists>m. snd (build_repository_scope_map a verbose debug) = Inr m
           \<and> length m = card (repo_identity ` set all_repos)
           \<and> (length m = length all_repos \<longleftrightarrow> distinct (map repo_identity all_repos))"
proof -
  let ?m = "foldl (scope_step a) (add_repos all_repos []) (app_scopes_of all_scopes)"
  have res: "snd (build_repository_scope_map a verbose debug) = Inr ?m"
    using assms(1,2) by (rule build_result)
  have "length ?m = length (map fst ?m)"
    by (simp only: length_map)
  also have "\<dots> = length (add_repos all_repos [])"
    by simp
  also have "\<dots> = card (repo_key ` set all_repos)"
    by (rule length_add_repos)
  also have "\<dots> = card (repo_identity ` set all_repos)"
    using assms(3) by (rule card_keys_identities)
  finally have len: "length ?m = card (repo_identity ` set all_repos)" .
  with res length_eq_distinct_identities [of all_repos] show ?thesis by simp
qed

theorem entries_count_witness:
  "all_repos_resp inventory_twice = Inr [app1, app1]
   \<and> app_scopes_resp inventory_twice = Inr [scope_global, scope_team_a]
   \<and> (\<exists>m. snd (build_repository_scope_map inventory_twice False False) = Inr m
           \<and> length m = card (repo_identity ` set [app1, app1])
           \<and> (length m = length [app1, app1] \<longleftrightarrow> distinct (map repo_identity [app1, app1])))
   \<and> card (repo_identity ` set [app1, app1]) = 1
   \<and> all_repos_resp scenario_A = Inr [app1, app2]
   \<and> app_scopes_resp scenario_A = Inr [scope_global, scope_team_a]
   \<and> repo_key app1 \<noteq> repo_key app2
   \<and> distinct (map repo_identity [app1, app2])
   \<and> (\<exists>m. snd (build_repository_scope_map scenario_A False False) = Inr m
           \<and> length m = card (repo_identity ` set [app1, app2])
           \<and> (length m = length [app1, app2] \<longleftrightarrow> distinct (map repo_identity [app1, app2])))"
proof -
  have t1: "all_repos_resp inventory_twice = Inr [app1, app1]"
    and t2: "app_scopes_resp inventory_twice = Inr [scope_global, scope_team_a]"
    by (simp_all add: inventory_twice_def)
  have t3: "\<forall>r\<in>set [app1, app1]. \<forall>r'\<in>set [app1, app1].
         repo_key r = repo_key r' \<longrightarrow> repo_identity r = repo_identity r'"
    by simp
  have t4: "card (repo_identity ` set [app1, app1]) = 1"
    by simp
  have a1: "all_repos_resp scenario_A = Inr [app1, app2]"
    and a2: "app_scopes_resp scenario_A = Inr [scope_global, scope_team_a]"
    by (simp_all add: scenario_A_def)
  have a3: "\<forall>r\<in>set [app1, app2]. \<forall>r'\<in>set [app1, app2].
         repo_key r = repo_key r' \<longrightarrow> repo_identity r = repo_identity r'"
    by (simp add: repo_key_def dict_get_def app1_def app2_def)
  have a4: "distinct (map repo_identity [app1, app2])"
    by (simp add: repo_identity_def app1_def app2_def)
  have a5: "repo_key app1 \<noteq> repo_key app2"
    by (simp add: repo_key_def dict_get_def app1_def app2_def)
  show ?thesis
    by (intro conjI t1 t2 t4 a1 a2 a4 a5
        entries_count [OF t1 t2 t3, of False False]
        entries_count [OF a1 a2 a3, of False False])
qed

section \<open>The filters\<close>

lemma scopes_ok_orphaned:
  assumes "scopes_ok xs"
  shows "xs = [PStr ''Global''] \<longleftrightarrow> set xs = {PStr ''Global''}"
    and "xs = [PStr ''Global''] \<longleftrightarrow> card (set xs) = 1"
    and "xs = [PStr ''Global''] \<longleftrightarrow> length xs = 1"
proof -
  obtain rest where xs: "xs = PStr ''Global'' # rest" and d: "PStr ''Global'' \<notin> set rest" "distinct rest"
    using assms by (cases xs) (auto simp: scopes_ok_def)
  show "xs = [PStr ''Global''] \<longleftrightarrow> length xs = 1"
    using xs by auto
  show "xs = [PStr ''Global''] \<longleftrightarrow> set xs = {PStr ''Global''}"
    using xs d by (cases rest) auto
  have "card (set xs) = length xs"
    using assms by (simp add: scopes_ok_def distinct_card)
  then show "xs = [PStr ''Global''] \<longleftrightarrow> card (set xs) = 1"
    using xs by auto
qed

text \<open>
  C5. On a map returned by \<open>build_repository_scope_map\<close>, the filter \<open>"orphaned"\<close> returns
  the entries whose scopes are \<open>["Global"]\<close>; these are the entries whose set of scopes is
  \<open>{"Global"}\<close>, and the entries with exactly one scope. The function only reads its
  argument: it is a function of the map, and the map is not part of its result.
\<close>

theorem orphaned_filter:
  assumes "snd (build_repository_scope_map a verbose debug) = Inr m"
  shows "filter_repositories m ''orphaned'' scope_name
           = filter (\<lambda>kv. set (scopes (snd kv)) = {PStr ''Global''}) m
         \<and> filter_repositories m ''orphaned'' scope_name
           = filter (\<lambda>kv. card (set (scopes (snd kv))) = 1) m
         \<and> filter_repositories m ''orphaned'' scope_name
           = filter (\<lambda>kv. length (scopes (snd kv)) = 1) m"
proof -
  have ok: "\<And>kv. kv \<in> set m \<Longrightarrow> scopes_ok (scopes (snd kv))"
    using scopes_ok_build [OF assms] by blast
  have 1: "filter (\<lambda>kv. scopes (snd kv) = [PStr ''Global'']) m
           = filter (\<lambda>kv. set (scopes (snd kv)) = {PStr ''Global''}) m"
    by (rule filter_cong [OF refl]) (rule scopes_ok_orphaned(1) [OF ok])
  have 2: "filter (\<lambda>kv. scopes (snd kv) = [PStr ''Global'']) m
           = filter (\<lambda>kv. card (set (scopes (snd kv))) = 1) m"
    by (rule filter_cong [OF refl]) (rule scopes_ok_orphaned(2) [OF ok])
  have 3: "filter (\<lambda>kv. scopes (snd kv) = [PStr ''Global'']) m
           = filter (\<lambda>kv. length (scopes (snd kv)) = 1) m"
    by (rule filter_cong [OF refl]) (rule scopes_ok_orphaned(3) [OF ok])
  show ?thesis
    unfolding filter_repositories_def using 1 2 3 by simp
qed

theorem orphaned_filter_witness:
  "snd (build_repository_scope_map scenario_A False False) = Inr scenario_A_map
   \<and> filter_repositories scenario_A_map ''orphaned'' PNone
       = [(''docker.io/app2'', \<lparr>data = app2, scopes = [PStr ''Global'']\<rparr>)]
   \<and> (filter_repositories scenario_A_map ''orphaned'' PNone
         = filter (\<lambda>kv. set (scopes (snd kv)) = {PStr ''Global''}) scenario_A_map
       \<and> filter_repositories scenario_A_map ''orphaned'' PNone
         = filter (\<lambda>kv. card (set (scopes (snd kv))) = 1) scenario_A_map
       \<and> filter_repositories scenario_A_map ''orphaned'' PNone
         = filter (\<lambda>kv. length (scopes (snd kv)) = 1) scenario_A_map)"
proof -
  have h: "snd (build_repository_scope_map scenario_A False False) = Inr scenario_A_map"
    by (rule build_scenario_A)
  have v: "filter_repositories scenario_A_map ''orphaned'' PNone
       = [(''docker.io/app2'', \<lparr>data = app2, scopes = [PStr ''Global'']\<rparr>)]"
    by (simp add: filter_repositories_def scenario_A_map_def)
  show ?thesis
    by (intro conjI h v orphaned_filter [OF h, THEN conjunct1]
        orphaned_filter [OF h, THEN conjunct2, THEN conjunct1]
        orphaned_filter [OF h, THEN conjunct2, THEN conjunct2])
qed

text \<open>
  C6, as stated, fails for an empty scope name: the test \<open>and scope_name\<close> is false, and
  the function returns the whole map, none of whose entries carries the scope \<open>""\<close>.
\<close>

theorem scope_filter_counterexample:
  "snd (build_repository_scope_map scenario_A False False) = Inr scenario_A_map
   \<and> filter_repositories scenario_A_map ''scope'' (PStr '''') = scenario_A_map
   \<and> scenario_A_map \<noteq> []
   \<and> filter (\<lambda>kv. PStr '''' \<in> set (scopes (snd kv))) scenario_A_map = []"
  using build_scenario_A [of False False]
  by (simp add: filter_repositories_def scenario_A_map_def)

text \<open>
  C6, amended. On a map returned by \<open>build_repository_scope_map\<close>, the filter \<open>"scope"\<close>
  with the name \<open>"Global"\<close> returns the whole map. With a scope name that Python takes as
  true (a non-empty string) it returns the entries whose scopes contain that name; with
  an empty or missing name it returns the whole map.
\<close>

theorem scope_filter:
  assumes "snd (build_repository_scope_map a verbose debug) = Inr m"
  shows "filter_repositories m ''scope'' (PStr ''Global'') = m
         \<and> (truthy scope_name \<longrightarrow>
              filter_repositories m ''scope'' scope_name
                = filter (\<lambda>kv. scope_name \<in> set (scopes (snd kv))) m)
         \<and> (\<not> truthy scope_name \<longrightarrow> filter_repositories m ''scope'' scope_name = m)"
proof -
  have "\<And>kv. kv \<in> set m \<Longrightarrow> PStr ''Global'' \<in> set (scopes (snd kv))"
    using scopes_ok_build [OF assms] global_in_scopes_ok by blast
  then have "filter (\<lambda>kv. PStr ''Global'' \<in> set (scopes (snd kv))) m = m"
    by (simp add: filter_id_conv)
  then show ?thesis
    by (simp add: filter_repositories_def)
qed

theorem scope_filter_witness:
  "snd (build_repository_scope_map scenario_A False False) = Inr scenario_A_map
   \<and> truthy (PStr ''team-a'') \<and> \<not> truthy (PStr '''')
   \<and> filter_repositories scenario_A_map ''scope'' (PStr ''Global'') = scenario_A_map
   \<and> filter_repositories scenario_A_map ''scope'' (PStr ''team-a'')
       = filter (\<lambda>kv. PStr ''team-a'' \<in> set (scopes (snd kv))) scenario_A_map
   \<and> filter_repositories scenario_A_map ''scope'' (PStr ''team-a'')
       = [(''docker.io/app1'', \<lparr>data = app1, scopes = [PStr ''Global'', PStr ''team-a'']\<rparr>)]
   \<and> filter_repositories scenario_A_map ''scope'' (PStr '''') = scenario_A_map"
proof -
  have h: "snd (build_repository_scope_map scenario_A False False) = Inr scenario_A_map"
    by (rule build_scenario_A)
  have t: "truthy (PStr ''team-a'')" and f: "\<not> truthy (PStr '''')"
    by simp_all
  have v: "filter_repositories scenario_A_map ''scope'' (PStr ''team-a'')
       = [(''docker.io/app1'', \<lparr>data = app1, scopes = [PStr ''Global'', PStr ''team-a'']\<rparr>)]"
    by (simp add: filter_repositories_def scenario_A_map_def)
  from scope_filter [OF h, of "PStr ''team-a''"] t
  have a: "filter_repositories scenario_A_map ''scope'' (PStr ''Global'') = scenario_A_map"
    and b: "filter_repositories scenario_A_map ''scope'' (PStr ''team-a'')
       = filter (\<lambda>kv. PStr ''team-a'' \<in> set (scopes (snd kv))) scenario_A_map"
    by blast+
  from scope_filter [OF h, of "PStr ''''"] f
  have c: "filter_repositories scenario_A_map ''scope'' (PStr '''') = scenario_A_map"
    by blast
  from h t f a b v c show ?thesis by blast
qed

section \<open>The key of a repository\<close>

text \<open>
  C9. The key is defined for every record. A record without \<open>registry\<close> gets the key
  \<open>unknown/name\<close>, a record without \<open>name\<close> the key \<open>registry/unknown\<close>, and step 1 stores
  every record, whatever its fields, under its key with the scopes \<open>["Global"]\<close>.
\<close>

theorem key_of_any_record:
  "(repo ''registry'' = None \<longrightarrow>
      repo_key repo = ''unknown/'' @ py_str (dict_get repo ''name'' (PStr ''unknown'')))
   \<and> (repo ''name'' = None \<longrightarrow>
      repo_key repo = py_str (dict_get repo ''registry'' (PStr ''unknown'')) @ ''/unknown'')
   \<and> map_of (add_repo repo repo_map) (repo_key repo)
       = Some \<lparr>data = repo, scopes = [PStr ''Global'']\<rparr>
   \<and> map_of (fst (add_scope debug scope_name repo (add_repo repo repo_map, out))) (repo_key repo)
       = Some \<lparr>data = repo,
               scopes = (if scope_name = PStr ''Global'' then [PStr ''Global'']
                         else [PStr ''Global'', scope_name])\<rparr>"
proof -
  have "map_of (add_repo repo repo_map) (repo_key repo)
          = Some \<lparr>data = repo, scopes = [PStr ''Global'']\<rparr>"
    by (simp add: add_repo_def update_conv')
  then show ?thesis
    by (auto simp: repo_key_def dict_get_def add_scope_def update_conv' Let_def)
qed

theorem key_of_any_record_witness:
  "Map.empty ''registry'' = None \<and> Map.empty ''name'' = None
   \<and> repo_key Map.empty = ''unknown/unknown''
   \<and> map_of (add_repo Map.empty []) ''unknown/unknown''
       = Some \<lparr>data = Map.empty, scopes = [PStr ''Global'']\<rparr>"
proof -
  have k: "repo_key Map.empty = ''unknown/unknown''"
    using key_of_any_record [of Map.empty "[]", THEN conjunct1]
    by (simp add: dict_get_def)
  have m: "map_of (add_repo Map.empty []) (repo_key Map.empty)
              = Some \<lparr>data = Map.empty, scopes = [PStr ''Global'']\<rparr>"
    by (rule key_of_any_record [of Map.empty "[]", THEN conjunct2, THEN conjunct2, THEN conjunct1])
  show ?thesis
    using m by (simp add: k)
qed

text \<open>
  C10. The key is the text of the registry, a slash and the text of the name. The
  records (\<open>a\<close>, \<open>b/c\<close>) and (\<open>a/b\<close>, \<open>c\<close>) both have the key \<open>a/b/c\<close>, and an inventory
  with these two records yields a map with one entry, which holds the later record.
\<close>

theorem colliding_keys_merge:
  "(\<forall>repo r n. repo ''registry'' = Some (PStr r) \<and> repo ''name'' = Some (PStr n)
       \<longrightarrow> repo_key repo = r @ ''/'' @ n)
   \<and> repo_key repo_a_bc = ''a/b/c'' \<and> repo_key repo_ab_c = ''a/b/c''
   \<and> repo_a_bc \<noteq> repo_ab_c
   \<and> snd (build_repository_scope_map colliding_inventory verbose debug)
       = Inr [(''a/b/c'', \<lparr>data = repo_ab_c, scopes = [PStr ''Global'']\<rparr>)]"
proof -
  have "repo_a_bc ''name'' \<noteq> repo_ab_c ''name''"
    by (simp add: repo_a_bc_def repo_ab_c_def)
  then have ne: "repo_a_bc \<noteq> repo_ab_c"
    by auto
  have keys: "repo_key repo_a_bc = ''a/b/c''" "repo_key repo_ab_c = ''a/b/c''"
    by (simp_all add: repo_key_def dict_get_def repo_a_bc_def repo_ab_c_def)
  have res: "snd (build_repository_scope_map colliding_inventory verbose debug)
       = Inr [(''a/b/c'', \<lparr>data = repo_ab_c, scopes = [PStr ''Global'']\<rparr>)]"
    using build_result [of colliding_inventory "[repo_a_bc, repo_ab_c]" "[scope_global]" verbose debug]
    by (simp add: colliding_inventory_def app_scopes_of_def scope_global_def dict_get_def
        add_repo_def keys)
  show ?thesis
    using ne keys res by (simp add: repo_key_def dict_get_def)
qed

theorem colliding_keys_merge_witness:
  "repo_a_bc ''registry'' = Some (PStr ''a'') \<and> repo_a_bc ''name'' = Some (PStr ''b/c'')
   \<and> repo_key repo_a_bc = ''a'' @ ''/'' @ ''b/c''"
proof -
  have h: "repo_a_bc ''registry'' = Some (PStr ''a'') \<and> repo_a_bc ''name'' = Some (PStr ''b/c'')"
    by (simp add: repo_a_bc_def)
  from colliding_keys_merge [of False False]
  have "repo_a_bc ''registry'' = Some (PStr ''a'') \<and> repo_a_bc ''name'' = Some (PStr ''b/c'')
       \<longrightarrow> repo_key repo_a_bc = ''a'' @ ''/'' @ ''b/c''"
    by blast
  with h show ?thesis by blast
qed

section \<open>The printed lines\<close>

lemma out_add_scope: "set (snd st) \<subseteq> set (snd (add_scope debug sn r st))"
  by (auto simp: add_scope_def Let_def split: option.splits)

lemma out_add_scopes: "set (snd st) \<subseteq> set (snd (add_scopes debug sn rs st))"
proof (induction rs arbitrary: st)
  case Nil
  then show ?case by simp
next
  case (Cons r rs)
  show ?case
    using out_add_scope [of st debug sn r] Cons.IH [of "add_scope debug sn r st"] by auto
qed

lemma out_check_scope: "set (snd st) \<subseteq> set (snd (check_scope a verbose debug n i s st))"
proof (cases "scope_repos_resp a (name_of s)")
  case (Inl e)
  then show ?thesis by (auto simp: check_scope_def Let_def)
next
  case (Inr rs)
  let ?st1 = "(fst st, snd st @ (if verbose then [Checking_scope (i + 1) n (name_of s)] else []))"
  have "set (snd st) \<subseteq> set (snd ?st1)" by auto
  also have "\<dots> \<subseteq> set (snd (add_scopes debug (name_of s) rs ?st1))"
    by (rule out_add_scopes)
  finally show ?thesis using Inr by (auto simp: check_scope_def Let_def)
qed

lemma out_check_scopes: "set (snd st) \<subseteq> set (snd (check_scopes a verbose debug n i ss st))"
proof (induction ss arbitrary: st i)
  case Nil
  then show ?case by simp
next
  case (Cons s ss)
  show ?case
    using out_check_scope [of st a verbose debug n i s]
      Cons.IH [of "check_scope a verbose debug n i s st" "i + 1"] by auto
qed

lemma error_check_scope:
  "scope_repos_resp a (name_of s) = Inl e \<Longrightarrow>
   Error_scope (name_of s) e \<in> set (snd (check_scope a True debug n i s st))"
  by (simp add: check_scope_def Let_def)

lemma error_check_scopes:
  "s \<in> set ss \<Longrightarrow> scope_repos_resp a (name_of s) = Inl e \<Longrightarrow>
   Error_scope (name_of s) e \<in> set (snd (check_scopes a True debug n i ss st))"
proof (induction ss arbitrary: st i)
  case Nil
  then show ?case by simp
next
  case (Cons s' ss)
  show ?case
  proof (cases "s = s'")
    case True
    then have "Error_scope (name_of s) e \<in> set (snd (check_scope a True debug n i s' st))"
      using Cons.prems(2) by (simp add: error_check_scope)
    then show ?thesis
      using out_check_scopes [of "check_scope a True debug n i s' st" a True debug n "i + 1" ss]
      by auto
  next
    case False
    then have "s \<in> set ss" using Cons.prems(1) by simp
    then show ?thesis using Cons.IH Cons.prems(2) by simp
  qed
qed

lemma out_build:
  assumes "all_repos_resp a = Inr all_repos" and "app_scopes_resp a = Inr all_scopes"
  shows "\<exists>out2. set (snd (check_scopes a verbose debug (length (app_scopes_of all_scopes)) 0
                       (app_scopes_of all_scopes) (add_repos all_repos [], out2)))
           \<subseteq> set (fst (build_repository_scope_map a verbose debug))"
  using assms by (auto simp: build_repository_scope_map_def Let_def)

lemma error_build:
  assumes "all_repos_resp a = Inr all_repos" and "app_scopes_resp a = Inr all_scopes"
    and "s \<in> set (app_scopes_of all_scopes)" and "scope_repos_resp a (name_of s) = Inl e"
  shows "Error_scope (name_of s) e \<in> set (fst (build_repository_scope_map a True debug))"
  using out_build [OF assms(1,2), of True debug] error_check_scopes [OF assms(3,4)]
  by blast

section \<open>Failures\<close>

lemma scope_step_failed:
  "isl (scope_repos_resp a (name_of s)) \<Longrightarrow> scope_step a m s = m"
  by (auto simp: scope_step_def isl_def)

lemma scope_steps_skip_failed:
  "foldl (scope_step a) m ss
     = foldl (scope_step a) m (filter (\<lambda>s. \<not> isl (scope_repos_resp a (name_of s))) ss)"
  by (induction ss arbitrary: m) (auto simp: scope_step_failed)

lemma scope_steps_all_failed:
  "\<forall>s\<in>set ss. isl (scope_repos_resp a (name_of s)) \<Longrightarrow> foldl (scope_step a) m ss = m"
  by (induction ss arbitrary: m) (auto simp: scope_step_failed)

lemma app_scopes_of_filter:
  "app_scopes_of (filter P ss) = filter P (app_scopes_of ss)"
  by (auto simp: app_scopes_of_def intro: filter_cong)

lemma scope_step_app_scopes_upd [simp]:
  "scope_step (a\<lparr>app_scopes_resp := x\<rparr>) = scope_step a"
  by (simp add: scope_step_def fun_eq_iff)

section \<open>Failing calls\<close>

lemma build_scenario_B:
  "snd (build_repository_scope_map scenario_B verbose debug)
     = Inr [(''docker.io/app1'', \<lparr>data = app1, scopes = [PStr ''Global'']\<rparr>),
            (''docker.io/app2'', \<lparr>data = app2, scopes = [PStr ''Global'']\<rparr>)]"
  by (simp add: eval_build Let_def scenario_B_def app1_def app2_def
      scope_global_def scope_team_a_def)

text \<open>
  C2, as stated, fails where it says that a diagnostic is surfaced: without \<open>verbose\<close>
  the handler of a failed lookup prints nothing. In scenario B, run without \<open>verbose\<close>,
  the lookup for \<open>team-a\<close> raises, the map is returned and no line is printed.
\<close>

theorem lookup_failure_counterexample:
  "scope_repos_resp scenario_B (PStr ''team-a'') = Inl (Exception ''lookup failed'')
   \<and> snd (build_repository_scope_map scenario_B False False)
       = Inr [(''docker.io/app1'', \<lparr>data = app1, scopes = [PStr ''Global'']\<rparr>),
              (''docker.io/app2'', \<lparr>data = app2, scopes = [PStr ''Global'']\<rparr>)]
   \<and> fst (build_repository_scope_map scenario_B False False) = []"
  by (simp add: eval_build Let_def scenario_B_def app1_def app2_def
      scope_global_def scope_team_a_def)

text \<open>
  C2, amended. An exception of the inventory call, or of the scope listing, leaves
  \<open>build_repository_scope_map\<close> as that exception. An exception of a per-scope lookup does
  not: the iteration for that scope leaves the map as it was, and prints a line if
  \<open>verbose\<close> is set and nothing otherwise; the function returns the map that the scopes
  with a successful lookup alone would give; if every lookup fails, the map is the one of
  step 1, where every entry has the scopes \<open>["Global"]\<close>; and with \<open>verbose\<close> set, the
  line \<open>Error fetching repositories for scope s: e\<close> is printed for every failed lookup.
\<close>

theorem lookup_failure_not_fatal:
  "(all_repos_resp a = Inl e \<longrightarrow> snd (build_repository_scope_map a verbose debug) = Inl e)
   \<and> (all_repos_resp a = Inr all_repos \<and> app_scopes_resp a = Inl e \<longrightarrow>
        snd (build_repository_scope_map a verbose debug) = Inl e)
   \<and> (scope_repos_resp a (name_of s) = Inl e \<longrightarrow>
        fst (check_scope a verbose debug n i s st) = fst st
        \<and> snd (check_scope a False debug n i s st) = snd st
        \<and> Error_scope (name_of s) e \<in> set (snd (check_scope a True debug n i s st)))
   \<and> (all_repos_resp a = Inr all_repos \<and> app_scopes_resp a = Inr all_scopes \<longrightarrow>
        (\<exists>m. snd (build_repository_scope_map a verbose debug) = Inr m
           \<and> snd (build_repository_scope_map
                   (a\<lparr>app_scopes_resp :=
                        Inr (filter (\<lambda>s. \<not> isl (scope_repos_resp a (name_of s))) all_scopes)\<rparr>)
                   verbose debug) = Inr m
           \<and> ((\<forall>s\<in>set (app_scopes_of all_scopes). isl (scope_repos_resp a (name_of s))) \<longrightarrow>
                m = add_repos all_repos [] \<and> (\<forall>kv\<in>set m. scopes (snd kv) = [PStr ''Global'']))
           \<and> (\<forall>s\<in>set (app_scopes_of all_scopes). \<forall>e'.
                scope_repos_resp a (name_of s) = Inl e' \<longrightarrow>
                Error_scope (name_of s) e' \<in> set (fst (build_repository_scope_map a True debug)))))"
proof (intro conjI impI)
  assume "all_repos_resp a = Inl e"
  then show "snd (build_repository_scope_map a verbose debug) = Inl e"
    by (rule build_fatal_repos)
next
  assume "all_repos_resp a = Inr all_repos \<and> app_scopes_resp a = Inl e"
  then show "snd (build_repository_scope_map a verbose debug) = Inl e"
    by (simp add: build_fatal_scopes)
next
  assume "scope_repos_resp a (name_of s) = Inl e"
  then show "fst (check_scope a verbose debug n i s st) = fst st"
    by (simp add: check_scope_def Let_def)
next
  assume "scope_repos_resp a (name_of s) = Inl e"
  then show "snd (check_scope a False debug n i s st) = snd st"
    by (simp add: check_scope_def Let_def)
next
  assume "scope_repos_resp a (name_of s) = Inl e"
  then show "Error_scope (name_of s) e \<in> set (snd (check_scope a True debug n i s st))"
    by (rule error_check_scope)
next
  assume ok: "all_repos_resp a = Inr all_repos \<and> app_scopes_resp a = Inr all_scopes"
  then have r: "all_repos_resp a = Inr all_repos" and l: "app_scopes_resp a = Inr all_scopes"
    by simp_all
  let ?good = "filter (\<lambda>s. \<not> isl (scope_repos_resp a (name_of s))) all_scopes"
  let ?a = "a\<lparr>app_scopes_resp := Inr ?good\<rparr>"
  let ?m = "foldl (scope_step a) (add_repos all_repos []) (app_scopes_of all_scopes)"
  have res: "snd (build_repository_scope_map a verbose debug) = Inr ?m"
    using r l by (rule build_result)
  have "snd (build_repository_scope_map ?a verbose debug)
          = Inr (foldl (scope_step ?a) (add_repos all_repos []) (app_scopes_of ?good))"
    by (rule build_result) (simp_all add: r)
  also have "foldl (scope_step ?a) (add_repos all_repos []) (app_scopes_of ?good) = ?m"
    by (simp add: app_scopes_of_filter scope_steps_skip_failed [symmetric])
  finally have res': "snd (build_repository_scope_map ?a verbose debug) = Inr ?m" .
  have all_failed: "(\<forall>s\<in>set (app_scopes_of all_scopes). isl (scope_repos_resp a (name_of s))) \<longrightarrow>
      ?m = add_repos all_repos [] \<and> (\<forall>kv\<in>set ?m. scopes (snd kv) = [PStr ''Global''])"
    using scopes_add_repos [of "[]" all_repos] by (simp add: scope_steps_all_failed)
  have printed: "\<forall>s\<in>set (app_scopes_of all_scopes). \<forall>e'.
      scope_repos_resp a (name_of s) = Inl e' \<longrightarrow>
      Error_scope (name_of s) e' \<in> set (fst (build_repository_scope_map a True debug))"
    using error_build [OF r l] by blast
  from res res' all_failed printed
  show "\<exists>m. snd (build_repository_scope_map a verbose debug) = Inr m
           \<and> snd (build_repository_scope_map ?a verbose debug) = Inr m
           \<and> ((\<forall>s\<in>set (app_scopes_of all_scopes). isl (scope_repos_resp a (name_of s))) \<longrightarrow>
                m = add_repos all_repos [] \<and> (\<forall>kv\<in>set m. scopes (snd kv) = [PStr ''Global'']))
           \<and> (\<forall>s\<in>set (app_scopes_of all_scopes). \<forall>e'.
                scope_repos_resp a (name_of s) = Inl e' \<longrightarrow>
                Error_scope (name_of s) e' \<in> set (fst (build_repository_scope_map a True debug)))"
    by blast
qed

theorem lookup_failure_not_fatal_witness:
  "all_repos_resp inventory_down = Inl (Exception ''no inventory'')
   \<and> snd (build_repository_scope_map inventory_down True False) = Inl (Exception ''no inventory'')
   \<and> all_repos_resp scopes_down = Inr [app1, app2]
   \<and> app_scopes_resp scopes_down = Inl (Exception ''no scopes'')
   \<and> snd (build_repository_scope_map scopes_down True False) = Inl (Exception ''no scopes'')
   \<and> scope_repos_resp scenario_B (name_of scope_team_a) = Inl (Exception ''lookup failed'')
   \<and> fst (check_scope scenario_B True False 1 0 scope_team_a ([], [])) = []
   \<and> all_repos_resp scenario_B = Inr [app1, app2]
   \<and> app_scopes_resp scenario_B = Inr [scope_global, scope_team_a]
   \<and> scope_team_a \<in> set (app_scopes_of [scope_global, scope_team_a])
   \<and> snd (build_repository_scope_map scenario_B True False) = Inr (add_repos [app1, app2] [])
   \<and> Error_scope (PStr ''team-a'') (Exception ''lookup failed'')
       \<in> set (fst (build_repository_scope_map scenario_B True False))"
proof -
  have d1: "all_repos_resp inventory_down = Inl (Exception ''no inventory'')"
    by (simp add: inventory_down_def)
  have d2: "all_repos_resp scopes_down = Inr [app1, app2] \<and>
            app_scopes_resp scopes_down = Inl (Exception ''no scopes'')"
    by (simp add: scopes_down_def)
  have b1: "scope_repos_resp scenario_B (name_of scope_team_a) = Inl (Exception ''lookup failed'')"
    by (simp add: scenario_B_def)
  have b2: "all_repos_resp scenario_B = Inr [app1, app2] \<and>
            app_scopes_resp scenario_B = Inr [scope_global, scope_team_a]"
    by (simp add: scenario_B_def)
  have b3: "scope_team_a \<in> set (app_scopes_of [scope_global, scope_team_a])"
    by (simp add: app_scopes_of_def scope_team_a_def scope_global_def dict_get_def)
  have b4: "\<forall>s\<in>set (app_scopes_of [scope_global, scope_team_a]).
              isl (scope_repos_resp scenario_B (name_of s))"
    by (simp add: scenario_B_def)
  have n: "name_of scope_team_a = PStr ''team-a''"
    by (simp add: scope_team_a_def dict_get_def)
  note t1 = lookup_failure_not_fatal
    [of inventory_down "Exception ''no inventory''" True False, THEN conjunct1, rule_format, OF d1]
  note t2 = lookup_failure_not_fatal
    [of scopes_down "Exception ''no scopes''" True False "[app1, app2]",
     THEN conjunct2, THEN conjunct1, rule_format, OF d2]
  note t3 = lookup_failure_not_fatal
    [of scenario_B "Exception ''lookup failed''" True False _ scope_team_a 1 0 "([], [])",
     THEN conjunct2, THEN conjunct2, THEN conjunct1, rule_format, OF b1]
  note t4 = lookup_failure_not_fatal
    [of scenario_B _ True False "[app1, app2]" _ _ _ _ "[scope_global, scope_team_a]",
     THEN conjunct2, THEN conjunct2, THEN conjunct2, rule_format, OF b2]
  from t4 b4 have r: "snd (build_repository_scope_map scenario_B True False) = Inr (add_repos [app1, app2] [])"
    by auto
  from t4 b3 b1 have p: "Error_scope (name_of scope_team_a) (Exception ''lookup failed'')
       \<in> set (fst (build_repository_scope_map scenario_B True False))"
    by blast
  from t3 have c: "fst (check_scope scenario_B True False 1 0 scope_team_a ([], [])) = []"
    by simp
  from d1 t1 d2 t2 b1 c b2 b3 r p show ?thesis
    unfolding n by blast
qed

section \<open>Repositories that the inventory does not have\<close>

lemma annotate_known: "annotate sn (K \<inter> fst ` set m) m = annotate sn K m"
  unfolding annotate_def by (rule map_cong) auto

lemma scope_step_known_only:
  assumes "fst ` set m = repo_key ` set all_repos"
  shows "scope_step (a\<lparr>scope_repos_resp := known_only all_repos (scope_repos_resp a)\<rparr>) m s
           = scope_step a m s"
proof (cases "scope_repos_resp a (name_of s)")
  case (Inl e)
  then show ?thesis by (simp add: scope_step_def known_only_def)
next
  case (Inr rs)
  have "repo_key ` set (filter (\<lambda>repo. repo_key repo \<in> repo_key ` set all_repos) rs)
          = repo_key ` set rs \<inter> fst ` set m"
    using assms by auto
  then show ?thesis
    using Inr by (simp add: scope_step_def known_only_def annotate_known)
qed

lemma dom_scope_step: "fst ` set (scope_step a m s) = fst ` set m"
  by (simp only: set_map [symmetric] keys_scope_step)

lemma scope_steps_known_only:
  "fst ` set m = repo_key ` set all_repos \<Longrightarrow>
   foldl (scope_step (a\<lparr>scope_repos_resp := known_only all_repos (scope_repos_resp a)\<rparr>)) m ss
     = foldl (scope_step a) m ss"
proof (induction ss arbitrary: m)
  case Nil
  then show ?case by simp
next
  case (Cons s ss)
  have "fst ` set (scope_step a m s) = repo_key ` set all_repos"
    using Cons.prems by (simp add: dom_scope_step)
  then show ?case
    using Cons.IH Cons.prems by (simp add: scope_step_known_only)
qed

lemma distinct_check_scope:
  "distinct (map fst (fst st)) \<Longrightarrow> distinct (map fst (fst (check_scope a verbose debug n i s st)))"
  by (simp add: check_scope_map)

lemma dom_check_scope:
  "distinct (map fst (fst st)) \<Longrightarrow>
   fst ` set (fst (check_scope a verbose debug n i s st)) = fst ` set (fst st)"
  by (simp add: check_scope_map dom_scope_step)

lemma warning_add_scopes:
  "distinct (map fst (fst st)) \<Longrightarrow> r \<in> set rs \<Longrightarrow> repo_key r \<notin> fst ` set (fst st) \<Longrightarrow>
   Warning_not_in_all (repo_key r) sn \<in> set (snd (add_scopes True sn rs st))"
proof (induction rs arbitrary: st)
  case Nil
  then show ?case by simp
next
  case (Cons r' rs)
  let ?st = "add_scope True sn r' st"
  have keys: "map fst (fst ?st) = map fst (fst st)"
    using Cons.prems(1) by (simp add: add_scope_map)
  show ?case
  proof (cases "r = r'")
    case True
    have "map_of (fst st) (repo_key r) = None"
      using Cons.prems(3) by (simp add: map_of_eq_None_iff)
    then have "Warning_not_in_all (repo_key r) sn \<in> set (snd ?st)"
      using True by (simp add: add_scope_def)
    then show ?thesis
      using out_add_scopes [of ?st True sn rs] by auto
  next
    case False
    then have in_rs: "r \<in> set rs" using Cons.prems(2) by simp
    have d: "distinct (map fst (fst ?st))"
      using Cons.prems(1) by (simp only: keys)
    have "fst ` set (fst ?st) = fst ` set (fst st)"
      by (simp only: set_map [symmetric] keys)
    then have nk: "repo_key r \<notin> fst ` set (fst ?st)"
      using Cons.prems(3) by simp
    show ?thesis
      using Cons.IH [OF d in_rs nk] by simp
  qed
qed

lemma warning_check_scope:
  assumes "distinct (map fst (fst st))" and "scope_repos_resp a (name_of s) = Inr rs"
    and "r \<in> set rs" and "repo_key r \<notin> fst ` set (fst st)"
  shows "Warning_not_in_all (repo_key r) (name_of s)
           \<in> set (snd (check_scope a verbose True n i s st))"
proof -
  let ?st1 = "(fst st, snd st @ (if verbose then [Checking_scope (i + 1) n (name_of s)] else []))"
  have "Warning_not_in_all (repo_key r) (name_of s) \<in> set (snd (add_scopes True (name_of s) rs ?st1))"
    by (rule warning_add_scopes) (use assms in simp_all)
  then show ?thesis
    using assms(2) by (simp add: check_scope_def Let_def)
qed

lemma warning_check_scopes:
  "distinct (map fst (fst st)) \<Longrightarrow> s \<in> set ss \<Longrightarrow> scope_repos_resp a (name_of s) = Inr rs \<Longrightarrow>
   r \<in> set rs \<Longrightarrow> repo_key r \<notin> fst ` set (fst st) \<Longrightarrow>
   Warning_not_in_all (repo_key r) (name_of s)
     \<in> set (snd (check_scopes a verbose True n i ss st))"
proof (induction ss arbitrary: st i)
  case Nil
  then show ?case by simp
next
  case (Cons s' ss)
  let ?st = "check_scope a verbose True n i s' st"
  show ?case
  proof (cases "s = s'")
    case True
    have "Warning_not_in_all (repo_key r) (name_of s) \<in> set (snd ?st)"
      unfolding True [symmetric]
      using Cons.prems(1,3,4,5) by (rule warning_check_scope)
    then show ?thesis
      using out_check_scopes [of ?st a verbose True n "i + 1" ss] by auto
  next
    case False
    then have in_ss: "s \<in> set ss" using Cons.prems(2) by simp
    have d: "distinct (map fst (fst ?st))"
      using Cons.prems(1) by (rule distinct_check_scope)
    have nk: "repo_key r \<notin> fst ` set (fst ?st)"
      using Cons.prems(1,5) by (simp add: dom_check_scope)
    show ?thesis
      using Cons.IH [OF d in_ss Cons.prems(3,4) nk] by simp
  qed
qed

lemma warning_build:
  assumes "all_repos_resp a = Inr all_repos" and "app_scopes_resp a = Inr all_scopes"
    and "s \<in> set (app_scopes_of all_scopes)" and "scope_repos_resp a (name_of s) = Inr rs"
    and "r \<in> set rs" and "repo_key r \<notin> repo_key ` set all_repos"
  shows "Warning_not_in_all (repo_key r) (name_of s)
           \<in> set (fst (build_repository_scope_map a verbose True))"
proof -
  obtain out2 where sub:
    "set (snd (check_scopes a verbose True (length (app_scopes_of all_scopes)) 0
                 (app_scopes_of all_scopes) (add_repos all_repos [], out2)))
       \<subseteq> set (fst (build_repository_scope_map a verbose True))"
    using out_build [OF assms(1,2)] by blast
  have d: "distinct (map fst (fst (add_repos all_repos [], out2)))"
    using distinct_add_repos [of "[]" all_repos] by simp
  have nk: "repo_key r \<notin> fst ` set (fst (add_repos all_repos [], out2))"
    using assms(6) by (simp add: keys_add_repos)
  show ?thesis
    using warning_check_scopes [OF d assms(3,4,5) nk] sub by blast
qed

lemma build_known_only:
  assumes "all_repos_resp a = Inr all_repos" and "app_scopes_resp a = Inr all_scopes"
  shows "snd (build_repository_scope_map
                (a\<lparr>scope_repos_resp := known_only all_repos (scope_repos_resp a)\<rparr>) verbose debug)
           = snd (build_repository_scope_map a verbose debug)"
proof -
  let ?a = "a\<lparr>scope_repos_resp := known_only all_repos (scope_repos_resp a)\<rparr>"
  have "snd (build_repository_scope_map ?a verbose debug)
          = Inr (foldl (scope_step ?a) (add_repos all_repos []) (app_scopes_of all_scopes))"
    by (rule build_result) (simp_all add: assms)
  also have "\<dots> = Inr (foldl (scope_step a) (add_repos all_repos []) (app_scopes_of all_scopes))"
    by (simp add: scope_steps_known_only keys_add_repos)
  also have "\<dots> = snd (build_repository_scope_map a verbose debug)"
    using assms by (rule build_result [symmetric])
  finally show ?thesis .
qed

text \<open>
  C7, as stated, fails where it says that the repository is reported as a warning: the
  warning is printed under \<open>if debug\<close>. In scenario D, run with \<open>verbose\<close> and without
  \<open>debug\<close>, the lookup for \<open>team-b\<close> returns \<open>x/ghost\<close>, and no printed line mentions it.
\<close>

theorem unknown_repository_counterexample:
  "scope_repos_resp scenario_D (PStr ''team-b'') = Inr [ghost, app1]
   \<and> repo_key ghost = ''x/ghost''
   \<and> snd (build_repository_scope_map scenario_D True False)
       = Inr [(''docker.io/app1'', \<lparr>data = app1, scopes = [PStr ''Global'', PStr ''team-b'']\<rparr>),
              (''docker.io/app2'', \<lparr>data = app2, scopes = [PStr ''Global'']\<rparr>)]
   \<and> fst (build_repository_scope_map scenario_D True False)
       = [Building_map, Step1, Found_total 2, Step2, Found_scopes 1, Step3,
          Checking_scope 1 1 (PStr ''team-b''), Mapping_complete, Total_repositories 2,
          Orphaned_repositories 1, With_app_scopes 1]
   \<and> fst (build_repository_scope_map scenario_D False False) = []"
  by (simp add: eval_build Let_def scenario_D_def app1_def app2_def ghost_def
      scope_global_def scope_team_b_def)

text \<open>
  C7, amended. A record of a per-scope answer whose key is not in the map leaves the map
  as it is, and a warning line is printed for it if \<open>debug\<close> is set and nothing otherwise.
  So the keys of the returned map are the keys of the inventory; the key of such a record
  is not among them; the returned map is the one that the answers without these records
  would give; and with \<open>debug\<close> set the warning for the record is among the printed lines.
\<close>

theorem unknown_repository_discarded:
  "(map_of (fst st) (repo_key repo) = None \<longrightarrow>
      add_scope False scope_name repo st = st
      \<and> add_scope True scope_name repo st
          = (fst st, snd st @ [Warning_not_in_all (repo_key repo) scope_name]))
   \<and> (all_repos_resp a = Inr all_repos \<and> app_scopes_resp a = Inr all_scopes \<longrightarrow>
        (\<exists>m. snd (build_repository_scope_map a verbose debug) = Inr m
           \<and> fst ` set m = repo_key ` set all_repos
           \<and> snd (build_repository_scope_map
                   (a\<lparr>scope_repos_resp := known_only all_repos (scope_repos_resp a)\<rparr>)
                   verbose debug) = Inr m
           \<and> (\<forall>s\<in>set (app_scopes_of all_scopes). \<forall>scope_repos.
                scope_repos_resp a (name_of s) = Inr scope_repos \<longrightarrow>
                (\<forall>r\<in>set scope_repos. repo_key r \<notin> repo_key ` set all_repos \<longrightarrow>
                   repo_key r \<notin> fst ` set m
                   \<and> Warning_not_in_all (repo_key r) (name_of s)
                       \<in> set (fst (build_repository_scope_map a verbose True))))))"
proof (intro conjI impI)
  assume "map_of (fst st) (repo_key repo) = None"
  then show "add_scope False scope_name repo st = st"
    by (simp add: add_scope_def)
next
  assume "map_of (fst st) (repo_key repo) = None"
  then show "add_scope True scope_name repo st
          = (fst st, snd st @ [Warning_not_in_all (repo_key repo) scope_name])"
    by (simp add: add_scope_def)
next
  assume ok: "all_repos_resp a = Inr all_repos \<and> app_scopes_resp a = Inr all_scopes"
  then have r: "all_repos_resp a = Inr all_repos" and l: "app_scopes_resp a = Inr all_scopes"
    by simp_all
  let ?m = "foldl (scope_step a) (add_repos all_repos []) (app_scopes_of all_scopes)"
  have res: "snd (build_repository_scope_map a verbose debug) = Inr ?m"
    using r l by (rule build_result)
  have keys: "fst ` set ?m = repo_key ` set all_repos"
    by (simp add: dom_scope_steps keys_add_repos)
  have same: "snd (build_repository_scope_map
                   (a\<lparr>scope_repos_resp := known_only all_repos (scope_repos_resp a)\<rparr>)
                   verbose debug) = Inr ?m"
    using build_known_only [OF r l, of verbose debug] res by simp
  have warned: "\<forall>s\<in>set (app_scopes_of all_scopes). \<forall>scope_repos.
                scope_repos_resp a (name_of s) = Inr scope_repos \<longrightarrow>
                (\<forall>r\<in>set scope_repos. repo_key r \<notin> repo_key ` set all_repos \<longrightarrow>
                   repo_key r \<notin> fst ` set ?m
                   \<and> Warning_not_in_all (repo_key r) (name_of s)
                       \<in> set (fst (build_repository_scope_map a verbose True)))"
    using warning_build [OF r l] keys by blast
  from res keys same warned
  show "\<exists>m. snd (build_repository_scope_map a verbose debug) = Inr m
           \<and> fst ` set m = repo_key ` set all_repos
           \<and> snd (build_repository_scope_map
                   (a\<lparr>scope_repos_resp := known_only all_repos (scope_repos_resp a)\<rparr>)
                   verbose debug) = Inr m
           \<and> (\<forall>s\<in>set (app_scopes_of all_scopes). \<forall>scope_repos.
                scope_repos_resp a (name_of s) = Inr scope_repos \<longrightarrow>
                (\<forall>r\<in>set scope_repos. repo_key r \<notin> repo_key ` set all_repos \<longrightarrow>
                   repo_key r \<notin> fst ` set m
                   \<and> Warning_not_in_all (repo_key r) (name_of s)
                       \<in> set (fst (build_repository_scope_map a verbose True))))"
    by blast
qed

theorem unknown_repository_discarded_witness:
  "map_of (fst ([], [])) (repo_key ghost) = None
   \<and> add_scope True (PStr ''team-b'') ghost ([], [])
       = ([], [Warning_not_in_all (repo_key ghost) (PStr ''team-b'')])
   \<and> all_repos_resp scenario_D = Inr [app1, app2]
   \<and> app_scopes_resp scenario_D = Inr [scope_global, scope_team_b]
   \<and> scope_team_b \<in> set (app_scopes_of [scope_global, scope_team_b])
   \<and> scope_repos_resp scenario_D (name_of scope_team_b) = Inr [ghost, app1]
   \<and> repo_key ghost \<notin> repo_key ` set [app1, app2]
   \<and> Warning_not_in_all (repo_key ghost) (name_of scope_team_b)
       \<in> set (fst (build_repository_scope_map scenario_D False True))
   \<and> (\<exists>m. snd (build_repository_scope_map scenario_D False True) = Inr m
           \<and> repo_key ghost \<notin> fst ` set m)"
proof -
  have g: "map_of (fst ([], [])) (repo_key ghost) = None"
    by simp
  have d: "all_repos_resp scenario_D = Inr [app1, app2]
           \<and> app_scopes_resp scenario_D = Inr [scope_global, scope_team_b]"
    by (simp add: scenario_D_def)
  have s: "scope_team_b \<in> set (app_scopes_of [scope_global, scope_team_b])"
    by (simp add: app_scopes_of_def scope_team_b_def scope_global_def dict_get_def)
  have l: "scope_repos_resp scenario_D (name_of scope_team_b) = Inr [ghost, app1]"
    by (simp add: scenario_D_def scope_team_b_def dict_get_def)
  have k: "repo_key ghost \<notin> repo_key ` set [app1, app2]"
    by (simp add: repo_key_def dict_get_def ghost_def app1_def app2_def)
  have in_l: "ghost \<in> set [ghost, app1]"
    by simp
  note t1 = unknown_repository_discarded
    [of "([], [])" ghost "PStr ''team-b''", THEN conjunct1, rule_format, OF g]
  note t2 = unknown_repository_discarded
    [of _ _ _ scenario_D "[app1, app2]" "[scope_global, scope_team_b]" False True,
     THEN conjunct2, rule_format, OF d]
  from t1 have w: "add_scope True (PStr ''team-b'') ghost ([], [])
       = ([], [Warning_not_in_all (repo_key ghost) (PStr ''team-b'')])"
    by simp
  from t2 obtain m where m: "snd (build_repository_scope_map scenario_D False True) = Inr m"
    and rest: "\<forall>s\<in>set (app_scopes_of [scope_global, scope_team_b]). \<forall>scope_repos.
                scope_repos_resp scenario_D (name_of s) = Inr scope_repos \<longrightarrow>
                (\<forall>r\<in>set scope_repos. repo_key r \<notin> repo_key ` set [app1, app2] \<longrightarrow>
                   repo_key r \<notin> fst ` set m
                   \<and> Warning_not_in_all (repo_key r) (name_of s)
                       \<in> set (fst (build_repository_scope_map scenario_D False True)))"
    by blast
  from rest s l in_l k
  have "repo_key ghost \<notin> fst ` set m
        \<and> Warning_not_in_all (repo_key ghost) (name_of scope_team_b)
            \<in> set (fst (build_repository_scope_map scenario_D False True))"
    by blast
  with g w d s l k m show ?thesis by blast
qed

section \<open>The order of the scopes\<close>

lemma view_scope_step:
  "map (\<lambda>kv. (fst kv, data (snd kv), set (scopes (snd kv)) \<union> X (fst kv))) (scope_step a m s)
     = map (\<lambda>kv. (fst kv, data (snd kv),
                   set (scopes (snd kv)) \<union> (if lists_repo a (fst kv) s then {name_of s} else {})
                     \<union> X (fst kv))) m"
  by (cases "scope_repos_resp a (name_of s)")
     (auto simp: scope_step_def annotate_def lists_repo_def)

lemma view_scope_steps:
  "map (\<lambda>kv. (fst kv, data (snd kv), set (scopes (snd kv)) \<union> X (fst kv)))
       (foldl (scope_step a) m ss)
     = map (\<lambda>kv. (fst kv, data (snd kv),
                   set (scopes (snd kv)) \<union> listing_scopes a ss (fst kv) \<union> X (fst kv))) m"
proof (induction ss arbitrary: m X)
  case Nil
  then show ?case by (simp add: listing_scopes_def)
next
  case (Cons s ss)
  have "map (\<lambda>kv. (fst kv, data (snd kv), set (scopes (snd kv)) \<union> X (fst kv)))
            (foldl (scope_step a) m (s # ss))
        = map (\<lambda>kv. (fst kv, data (snd kv),
                 set (scopes (snd kv)) \<union> (\<lambda>k. listing_scopes a ss k \<union> X k) (fst kv)))
            (scope_step a m s)"
    using Cons.IH [where m = "scope_step a m s" and X = X] by (simp add: Un_assoc)
  also have "\<dots> = map (\<lambda>kv. (fst kv, data (snd kv),
                   set (scopes (snd kv)) \<union> (if lists_repo a (fst kv) s then {name_of s} else {})
                     \<union> (\<lambda>k. listing_scopes a ss k \<union> X k) (fst kv))) m"
    by (rule view_scope_step)
  also have "\<dots> = map (\<lambda>kv. (fst kv, data (snd kv),
                   set (scopes (snd kv)) \<union> listing_scopes a (s # ss) (fst kv) \<union> X (fst kv))) m"
    by (rule map_cong) (auto simp: listing_scopes_def)
  finally show ?case .
qed

lemma view_result:
  "map view (foldl (scope_step a) m ss)
     = map (\<lambda>kv. (fst kv, data (snd kv), set (scopes (snd kv)) \<union> listing_scopes a ss (fst kv))) m"
  using view_scope_steps [of "\<lambda>k. {}" a m ss] by (simp add: view_def [abs_def])

lemma listing_scopes_cong: "set ss = set ss' \<Longrightarrow> listing_scopes a ss = listing_scopes a ss'"
  by (simp add: listing_scopes_def fun_eq_iff)

lemma set_app_scopes_of: "set ss = set ss' \<Longrightarrow> set (app_scopes_of ss) = set (app_scopes_of ss')"
  by (simp add: app_scopes_of_def)

text \<open>
  C4, as stated, fails: the scopes of an entry are a list, to which each scope is
  appended when it is processed, so the returned map shows the order of the scopes. With
  the same inventory and the same answers to the lookups, the listing \<open>team-a, team-b\<close>
  gives \<open>app1\<close> the scopes \<open>["Global", "team-a", "team-b"]\<close> and the listing
  \<open>team-b, team-a\<close> gives it \<open>["Global", "team-b", "team-a"]\<close>.
\<close>

theorem scope_order_counterexample:
  "snd (build_repository_scope_map two_scopes_ab False False)
     = Inr [(''docker.io/app1'',
             \<lparr>data = app1, scopes = [PStr ''Global'', PStr ''team-a'', PStr ''team-b'']\<rparr>)]
   \<and> snd (build_repository_scope_map two_scopes_ba False False)
     = Inr [(''docker.io/app1'',
             \<lparr>data = app1, scopes = [PStr ''Global'', PStr ''team-b'', PStr ''team-a'']\<rparr>)]
   \<and> snd (build_repository_scope_map two_scopes_ab False False)
     \<noteq> snd (build_repository_scope_map two_scopes_ba False False)"
  by (simp add: eval_build Let_def two_scopes_ab_def two_scopes_ba_def app1_def
      scope_team_a_def scope_team_b_def)

text \<open>
  C4, amended. For a fixed inventory and fixed answers to the lookups, two listings of
  the scopes that are permutations of each other give maps with the same keys in the same
  order, the same record under each key and, under each key, the same set of scopes; the
  order of the names within a list of scopes follows the order of the listing.
\<close>

theorem scope_order:
  assumes "all_repos_resp a = Inr all_repos" and "app_scopes_resp a = Inr all_scopes"
    and "mset all_scopes' = mset all_scopes"
  shows "\<exists>m m'. snd (build_repository_scope_map a verbose debug) = Inr m
           \<and> snd (build_repository_scope_map (a\<lparr>app_scopes_resp := Inr all_scopes'\<rparr>)
                   verbose debug) = Inr m'
           \<and> map view m' = map view m"
proof -
  let ?a = "a\<lparr>app_scopes_resp := Inr all_scopes'\<rparr>"
  let ?m = "foldl (scope_step a) (add_repos all_repos []) (app_scopes_of all_scopes)"
  let ?m' = "foldl (scope_step a) (add_repos all_repos []) (app_scopes_of all_scopes')"
  have res: "snd (build_repository_scope_map a verbose debug) = Inr ?m"
    using assms(1,2) by (rule build_result)
  have "snd (build_repository_scope_map ?a verbose debug)
          = Inr (foldl (scope_step ?a) (add_repos all_repos []) (app_scopes_of all_scopes'))"
    by (rule build_result) (simp_all add: assms(1))
  then have res': "snd (build_repository_scope_map ?a verbose debug) = Inr ?m'"
    by simp
  have "set all_scopes' = set all_scopes"
    using assms(3) by (rule mset_eq_setD)
  then have "set (app_scopes_of all_scopes') = set (app_scopes_of all_scopes)"
    by (rule set_app_scopes_of)
  then have "listing_scopes a (app_scopes_of all_scopes') = listing_scopes a (app_scopes_of all_scopes)"
    by (rule listing_scopes_cong)
  then have "map view ?m' = map view ?m"
    by (simp add: view_result)
  with res res' show ?thesis by blast
qed

theorem scope_order_witness:
  "all_repos_resp two_scopes_ab = Inr [app1]
   \<and> app_scopes_resp two_scopes_ab = Inr [scope_team_a, scope_team_b]
   \<and> mset [scope_team_b, scope_team_a] = mset [scope_team_a, scope_team_b]
   \<and> (\<exists>m m'. snd (build_repository_scope_map two_scopes_ab False False) = Inr m
           \<and> snd (build_repository_scope_map two_scopes_ba False False) = Inr m'
           \<and> map view m' = map view m)"
proof -
  have h1: "all_repos_resp two_scopes_ab = Inr [app1]"
    by (simp add: two_scopes_ab_def)
  have h2: "app_scopes_resp two_scopes_ab = Inr [scope_team_a, scope_team_b]"
    by (simp add: two_scopes_ab_def)
  have h3: "mset [scope_team_b, scope_team_a] = mset [scope_team_a, scope_team_b]"
    by (simp add: add_mset_commute)
  show ?thesis
    using h1 h2 h3 scope_order [OF h1 h2 h3, of False False]
    unfolding two_scopes_ba_def by blast
qed

section \<open>The counts of the summary\<close>

text \<open>
  The part of the summary that is integer arithmetic: the scoped count is the total minus
  the orphaned count and is not negative, and an empty map takes the branch without a
  division.
\<close>

lemma summary_counts:
  "repositories_with_app_scopes (summary_of m)
     = int (total_repositories (summary_of m)) - int (orphaned_repositories (summary_of m))"
  "0 \<le> repositories_with_app_scopes (summary_of m)"
  "orphaned_percentage (summary_of []) = Int_zero"
proof -
  have "length (filter (\<lambda>v. scopes v = [PStr ''Global'']) (map snd m)) \<le> length m"
    using length_filter_le [of _ "map snd m"] by simp
  then show "0 \<le> repositories_with_app_scopes (summary_of m)"
    by (simp add: summary_of_def Let_def)
qed (simp_all add: summary_of_def Let_def)

end
